theory Spec2Isabelle
  imports Complex_Main
begin

section \<open>Errors\<close>

text \<open>
  The Python exceptions that \<^verbatim>\<open>innerproduct.py\<close> can raise, as values.
  \<open>NotImplementedError\<close> is raised explicitly by the dimension guards and by the
  abstract base class; \<open>ValueError\<close> is what \<^verbatim>\<open>list.remove\<close> raises
  when the element is absent; \<open>AttributeError\<close> is a read of an attribute that has
  not been assigned yet; \<open>PetscError\<close> stands for the size and state checks of
  the PETSc matrix operations the code calls.
\<close>

datatype error = NotImplementedError | ValueError | AttributeError | PetscError

definition bind_err :: "error + 'a \<Rightarrow> ('a \<Rightarrow> error + 'b) \<Rightarrow> error + 'b" where
  "bind_err m f = (case m of Inl e \<Rightarrow> Inl e | Inr x \<Rightarrow> f x)"

section \<open>Symbolic UFL expressions built by the code\<close>

text \<open>
  Scalar expressions that occur as components of \<^verbatim>\<open>fd.as_vector([...])\<close>:
  a spatial coordinate \<^verbatim>\<open>X[i]\<close>, a negation, a literal.
\<close>

datatype scalar = X nat | Neg scalar | Lit real

datatype vexpr = Constant "real list" | as_vector "scalar list"

text \<open>\<^verbatim>\<open>fd.Function(V).interpolate(e)\<close>\<close>

datatype fem_function = Interpolate vexpr

text \<open>
  The two function spaces of the file: the space \<^verbatim>\<open>V\<close> handed to the
  methods, and \<^verbatim>\<open>W = fd.FunctionSpace(V.mesh(), "CG", 1)\<close> of
  \<^verbatim>\<open>get_mu\<close>.
\<close>

datatype space = GivenSpace | ScalarCG1

record dirichlet_bc =
  bc_space :: space
  bc_value :: "real list"
  bc_sub_domain :: "int list"

definition DirichletBC :: "space \<Rightarrow> real list \<Rightarrow> int list \<Rightarrow> dirichlet_bc" where
  "DirichletBC W g ids = \<lparr>bc_space = W, bc_value = g, bc_sub_domain = ids\<rparr>"

text \<open>
  Weak forms. \<open>Integral e\<close> is \<^verbatim>\<open>e * fd.dx\<close>; \<open>Solution a b bcs\<close> is the
  function \<^verbatim>\<open>mu\<close> after \<^verbatim>\<open>fd.solve(a == b, mu, bcs=bcs)\<close>.
\<close>

datatype ufl =
    TrialFunction space
  | TestFunction space
  | ConstantS real
  | Grad ufl
  | Sym ufl
  | Inner ufl ufl
  | Times ufl ufl
  | Plus ufl ufl
  | Integral ufl
  | Solution ufl ufl "dirichlet_bc list"

section \<open>The external objects: function space, PETSc matrix, solvers\<close>

text \<open>
  Of the function space the code reads \<^verbatim>\<open>V.value_size\<close> and
  \<^verbatim>\<open>V.mesh().topology.exterior_facets.unique_markers\<close>.
\<close>

record function_space =
  value_size :: nat
  unique_markers :: "int list"

type_synonym vec = "real list"

text \<open>
  A PETSc matrix: its sizes, its entries, and whether it is in the assembled state
  (\<^verbatim>\<open>setValue\<close> leaves it unassembled until \<^verbatim>\<open>assemble()\<close>; reading
  a row of, or multiplying with, an unassembled matrix is an error).
\<close>

record mat =
  nrows :: nat
  ncols :: nat
  entry :: "nat \<Rightarrow> nat \<Rightarrow> real"
  assembled :: bool

definition getRow :: "mat \<Rightarrow> nat \<Rightarrow> error + (nat list \<times> real list)" where
  "getRow M row =
     (if assembled M \<and> row < nrows M
      then (let cols = filter (\<lambda>j. entry M row j \<noteq> 0) [0..<ncols M]
            in Inr (cols, map (entry M row) cols))
      else Inl PetscError)"

definition setValue :: "mat \<Rightarrow> nat \<Rightarrow> nat \<Rightarrow> real \<Rightarrow> error + mat" where
  "setValue M r c v =
     (if r < nrows M \<and> c < ncols M
      then Inr (M\<lparr>entry := (\<lambda>i j. if i = r \<and> j = c then v else entry M i j),
                  assembled := False\<rparr>)
      else Inl PetscError)"

definition assemble_mat :: "mat \<Rightarrow> mat" where
  "assemble_mat M = M\<lparr>assembled := True\<rparr>"

definition mult :: "mat \<Rightarrow> vec \<Rightarrow> error + vec" where
  "mult M x =
     (if assembled M \<and> length x = ncols M
      then Inr (map (\<lambda>i. \<Sum>j\<leftarrow>[0..<ncols M]. entry M i j * x ! j) [0..<nrows M])
      else Inl PetscError)"

definition dot :: "vec \<Rightarrow> vec \<Rightarrow> error + real" where
  "dot v w =
     (if length v = length w
      then Inr (\<Sum>i\<leftarrow>[0..<length v]. v ! i * w ! i)
      else Inl PetscError)"

text \<open>\<^verbatim>\<open>A.PtAP(P)\<close> is the product \<open>P\<^sup>T A P\<close>, for a square \<open>A\<close>.\<close>

definition PtAP :: "mat \<Rightarrow> mat \<Rightarrow> error + mat" where
  "PtAP M P =
     (if assembled M \<and> assembled P \<and> nrows M = ncols M \<and> nrows P = ncols M
      then Inr \<lparr>nrows = ncols P, ncols = ncols P,
                entry = (\<lambda>i j. \<Sum>k\<leftarrow>[0..<nrows M]. \<Sum>l\<leftarrow>[0..<ncols M].
                                   entry P k i * entry M k l * entry P l j),
                assembled = True\<rparr>
      else Inl PetscError)"

text \<open>\<^verbatim>\<open>np.linalg.norm(vals)\<close>: the 2-norm of a list of values.\<close>

definition linalg_norm :: "real list \<Rightarrow> real" where
  "linalg_norm vals = sqrt (\<Sum>v\<leftarrow>vals. v * v)"

text \<open>
  \<^verbatim>\<open>fd.VectorSpaceBasis(fs)\<close> and its \<^verbatim>\<open>orthonormalize()\<close>. The
  Gram-Schmidt process itself is Firedrake's; the model records that it was applied.
\<close>

record vector_space_basis =
  vecs :: "fem_function list"
  orthonormalized :: bool

definition VectorSpaceBasis :: "fem_function list \<Rightarrow> vector_space_basis" where
  "VectorSpaceBasis fs = \<lparr>vecs = fs, orthonormalized = False\<rparr>"

definition orthonormalize :: "vector_space_basis \<Rightarrow> vector_space_basis" where
  "orthonormalize b = b\<lparr>orthonormalized := True\<rparr>"

datatype param = PReal real | PStr string

record linear_solver =
  ls_A :: mat
  solver_parameters :: "(string \<times> param) list"
  nullspace :: "vector_space_basis option"
  transpose_nullspace :: "vector_space_basis option"

record ksp =
  operators :: mat
  ksp_type :: string
  pc_type :: string
  pc_factor_solver_type :: string
  is_set_up :: bool

text \<open>
  The calls into Firedrake and PETSc that assemble, factorize or solve. The methods
  below return the calls they make, in order.
\<close>

datatype call =
    VariationalSolve ufl ufl "dirichlet_bc list"
  | Assemble ufl "dirichlet_bc option"
  | MatPtAP
  | KSPSetUp
  | LinearSolverSolve linear_solver vec
  | KSPSolve ksp vec


text \<open>
  The assembler is Firedrake's. It is a parameter of the model: for a bilinear form on
  \<open>V\<close> and the boundary conditions it gives the number of degrees of freedom and the
  entries of the (square) matrix.
\<close>

type_synonym assembler = "ufl \<Rightarrow> dirichlet_bc option \<Rightarrow> nat \<times> (nat \<Rightarrow> nat \<Rightarrow> real)"

definition fd_assemble :: "assembler \<Rightarrow> ufl \<Rightarrow> dirichlet_bc option \<Rightarrow> mat" where
  "fd_assemble asm a bc =
     (case asm a bc of (n, e) \<Rightarrow> \<lparr>nrows = n, ncols = n, entry = e, assembled = True\<rparr>)"

section \<open>The class \<^verbatim>\<open>InnerProduct\<close> and its three subclasses\<close>

datatype kind = Abstract | H1 | Laplace | Elasticity

text \<open>
  The object \<^verbatim>\<open>self\<close>. An attribute that has not been assigned yet is \<open>None\<close>.
\<close>

record inner_product =
  kind :: kind
  fixed_bids :: "int list"
  params :: "(string \<times> param) list"
  free_bids :: "int list option"
  ls :: "linear_solver option"
  A :: "mat option"
  interpolated :: "bool option"
  Aksp :: "ksp option"

definition get_params :: "(string \<times> param) list" where
  "get_params =
     [(''ksp_rtol'', PReal (1 / 10 ^ 11)),
      (''ksp_atol'', PReal (1 / 10 ^ 11)),
      (''ksp_stol'', PReal (1 / 10 ^ 16)),
      (''ksp_type'', PStr ''cg''),
      (''pc_type'', PStr ''hypre''),
      (''pc_hypre_type'', PStr ''boomeramg'')]"

definition init :: "kind \<Rightarrow> int list \<Rightarrow> inner_product" where
  "init k bids =
     \<lparr>kind = k, fixed_bids = bids, params = get_params, free_bids = None,
      ls = None, A = None, interpolated = None, Aksp = None\<rparr>"

subsection \<open>\<^verbatim>\<open>get_nullspace\<close>\<close>

definition get_nullspace :: "inner_product \<Rightarrow> function_space \<Rightarrow> error + fem_function list option" where
  "get_nullspace self V =
     (case kind self of
        Abstract \<Rightarrow> Inl NotImplementedError
      | H1 \<Rightarrow> Inr None
      | Laplace \<Rightarrow>
          (let dim = value_size V in
           if dim = 2 then
             Inr (Some [Interpolate (Constant [1, 0]),
                        Interpolate (Constant [0, 1])])
           else if dim = 3 then
             Inr (Some [Interpolate (Constant [1, 0, 0]),
                        Interpolate (Constant [0, 1, 0]),
                        Interpolate (Constant [0, 0, 1])])
           else Inl NotImplementedError)
      | Elasticity \<Rightarrow>
          (let dim = value_size V in
           if dim = 2 then
             Inr (Some [Interpolate (Constant [1, 0]),
                        Interpolate (Constant [0, 1]),
                        Interpolate (as_vector [X 1, Neg (X 0)])])
           else if dim = 3 then
             Inr (Some [Interpolate (Constant [1, 0, 0]),
                        Interpolate (Constant [0, 1, 0]),
                        Interpolate (Constant [0, 0, 1]),
                        Interpolate (as_vector [Neg (X 1), X 0, Lit 0]),
                        Interpolate (as_vector [Neg (X 2), Lit 0, X 0]),
                        Interpolate (as_vector [Lit 0, X 2, X 1])])
           else Inl NotImplementedError))"

subsection \<open>\<^verbatim>\<open>get_mu\<close> and \<^verbatim>\<open>get_weak_form\<close>\<close>

definition get_mu :: "inner_product \<Rightarrow> function_space \<Rightarrow> error + (ufl \<times> call list)" where
  "get_mu self V =
     (case free_bids self of
        None \<Rightarrow> Inl AttributeError
      | Some free \<Rightarrow>
          (let bc_fix = DirichletBC ScalarCG1 [1] (fixed_bids self);
               bc_free = DirichletBC ScalarCG1 [10] free;
               u = TrialFunction ScalarCG1;
               v = TestFunction ScalarCG1;
               a = Integral (Inner (Grad u) (Grad v));
               b = Integral (Inner (ConstantS 0) v)
           in Inr (Solution a b [bc_fix, bc_free],
                   [VariationalSolve a b [bc_fix, bc_free]])))"

definition get_weak_form :: "inner_product \<Rightarrow> function_space \<Rightarrow> error + (ufl \<times> call list)" where
  "get_weak_form self V =
     (let u = TrialFunction GivenSpace; v = TestFunction GivenSpace in
      case kind self of
        Abstract \<Rightarrow> Inl NotImplementedError
      | H1 \<Rightarrow> Inr (Plus (Integral (Inner (Grad u) (Grad v))) (Integral (Inner u v)), [])
      | Laplace \<Rightarrow> Inr (Integral (Inner (Grad u) (Grad v)), [])
      | Elasticity \<Rightarrow>
          bind_err (if length (fixed_bids self) > 0 then get_mu self V
                    else Inr (ConstantS 1, []))
            (\<lambda>(mu, calls).
               Inr (Integral (Times mu (Inner (Sym (Grad u)) (Sym (Grad v)))), calls)))"

subsection \<open>\<^verbatim>\<open>get_impl\<close>\<close>

text \<open>
  Lines 41 to 44: the list of boundary markers, from which each fixed id is removed
  with \<^verbatim>\<open>list.remove\<close> (the first occurrence; \<open>ValueError\<close> when there is none).
\<close>

fun remove_bids :: "int list \<Rightarrow> int list \<Rightarrow> error + int list" where
  "remove_bids [] free = Inr free"
| "remove_bids (bid # bids) free =
     (if bid \<in> set free then remove_bids bids (remove1 bid free) else Inl ValueError)"

text \<open>
  Lines 84 to 95: the rows of \<open>ITAI\<close> whose values have a norm below \<open>1e-13\<close> are
  collected first; then the diagonal entry of each is set to one; then the matrix is
  assembled.
\<close>

fun find_zero_rows :: "mat \<Rightarrow> nat list \<Rightarrow> nat list \<Rightarrow> error + nat list" where
  "find_zero_rows ITAI [] zero_rows = Inr zero_rows"
| "find_zero_rows ITAI (row # rows) zero_rows =
     (case getRow ITAI row of
        Inl e \<Rightarrow> Inl e
      | Inr (cols, vals) \<Rightarrow>
          (if linalg_norm vals < 1 / 10 ^ 13
           then find_zero_rows ITAI rows (zero_rows @ [row])
           else find_zero_rows ITAI rows zero_rows))"

fun set_diagonal :: "mat \<Rightarrow> nat list \<Rightarrow> error + mat" where
  "set_diagonal ITAI [] = Inr ITAI"
| "set_diagonal ITAI (row # rows) =
     (case setValue ITAI row row 1 of
        Inl e \<Rightarrow> Inl e
      | Inr ITAI' \<Rightarrow> set_diagonal ITAI' rows)"

definition patch_zero_rows :: "mat \<Rightarrow> error + mat" where
  "patch_zero_rows ITAI =
     bind_err (find_zero_rows ITAI [0..<nrows ITAI] []) (\<lambda>zero_rows.
     bind_err (set_diagonal ITAI zero_rows) (\<lambda>ITAI'.
     Inr (assemble_mat ITAI')))"

definition get_impl ::
  "assembler \<Rightarrow> inner_product \<Rightarrow> function_space \<Rightarrow> mat option
     \<Rightarrow> error + (inner_product \<times> call list)" where
  "get_impl asm self V I =
     bind_err (remove_bids (fixed_bids self) (unique_markers V)) (\<lambda>free.
     let self1 = self\<lparr>free_bids := Some free\<rparr> in
     bind_err
       (if length (fixed_bids self1) = 0 then
          bind_err (get_nullspace self1 V) (\<lambda>nsp_functions.
            case nsp_functions of
              None \<Rightarrow> Inr None
            | Some fs \<Rightarrow> Inr (Some (orthonormalize (VectorSpaceBasis fs))))
        else Inr None) (\<lambda>nsp.
     bind_err
       (if length (fixed_bids self1) > 0 then
          (let dim = value_size V in
           if dim = 2 then Inr (Some (DirichletBC GivenSpace [0, 0] (fixed_bids self1)))
           else if dim = 3 then Inr (Some (DirichletBC GivenSpace [0, 0, 0] (fixed_bids self1)))
           else Inl NotImplementedError)
        else Inr None) (\<lambda>bc.
     bind_err (get_weak_form self1 V) (\<lambda>(a, calls).
     let A0 = fd_assemble asm a bc;
         ls0 = \<lparr>ls_A = A0, solver_parameters = params self1,
                nullspace = nsp, transpose_nullspace = nsp\<rparr>;
         self2 = self1\<lparr>ls := Some ls0, A := Some A0, interpolated := Some False\<rparr>;
         calls2 = calls @ [Assemble a bc]
     in case I of
          None \<Rightarrow> Inr (self2, calls2)
        | Some P \<Rightarrow>
            bind_err (PtAP A0 P) (\<lambda>ITAI0.
            bind_err (patch_zero_rows ITAI0) (\<lambda>ITAI.
            let k = \<lparr>operators = ITAI, ksp_type = ''preonly'', pc_type = ''cholesky'',
                     pc_factor_solver_type = ''mumps'', is_set_up = True\<rparr>
            in Inr (self2\<lparr>interpolated := Some True, A := Some ITAI, Aksp := Some k\<rparr>,
                    calls2 @ [MatPtAP, KSPSetUp])))))))"

subsection \<open>\<^verbatim>\<open>eval\<close> and \<^verbatim>\<open>riesz_map\<close>\<close>

definition eval :: "inner_product \<Rightarrow> vec \<Rightarrow> vec \<Rightarrow> error + real" where
  "eval self u v =
     (case A self of
        None \<Rightarrow> Inl AttributeError
      | Some M \<Rightarrow> bind_err (mult M u) (\<lambda>A_u. dot v A_u))"


section \<open>What the external calls compute\<close>

subsection \<open>The solvers\<close>



fun is_variational_solve :: "call \<Rightarrow> bool" where
  "is_variational_solve (VariationalSolve a b bcs) = True"
| "is_variational_solve (Assemble a bc) = False"
| "is_variational_solve MatPtAP = False"
| "is_variational_solve KSPSetUp = False"
| "is_variational_solve (LinearSolverSolve l b) = False"
| "is_variational_solve (KSPSolve k b) = False"

subsection \<open>The bilinear form of a matrix\<close>

text \<open>The scalar \<open>v\<^sup>T M u\<close>, written out as a double sum.\<close>

definition bilinear :: "mat \<Rightarrow> vec \<Rightarrow> vec \<Rightarrow> real" where
  "bilinear M u v =
     (\<Sum>i\<leftarrow>[0..<nrows M]. \<Sum>j\<leftarrow>[0..<ncols M]. v ! i * entry M i j * u ! j)"

definition symmetric :: "mat \<Rightarrow> bool" where
  "symmetric M \<longleftrightarrow>
     nrows M = ncols M \<and> (\<forall>i\<in>{..<nrows M}. \<forall>j\<in>{..<ncols M}. entry M i j = entry M j i)"

text \<open>The 2-norm of row \<open>r\<close> of a matrix, over all its columns.\<close>

definition row_norm :: "mat \<Rightarrow> nat \<Rightarrow> real" where
  "row_norm M r = sqrt (\<Sum>j\<leftarrow>[0..<ncols M]. entry M r j * entry M r j)"

subsection \<open>The UFL operators on the nullspace fields\<close>

text \<open>
  The fields that \<^verbatim>\<open>get_nullspace\<close> interpolates are affine in the coordinates,
  so their gradient is a constant matrix: entry \<open>(i, j)\<close> is the derivative of
  component \<open>i\<close> along coordinate \<open>j\<close>. \<open>sym_part\<close> is \<^verbatim>\<open>fd.sym\<close>,
  \<open>inner_mat\<close> is \<^verbatim>\<open>fd.inner\<close> on matrices, and \<open>elasticity_integrand\<close> is the
  integrand \<^verbatim>\<open>mu * fd.inner(fd.sym(fd.grad(u)), fd.sym(fd.grad(v)))\<close> of the
  elasticity weak form at such fields.
\<close>

fun deriv :: "scalar \<Rightarrow> nat \<Rightarrow> real" where
  "deriv (X i) j = (if i = j then 1 else 0)"
| "deriv (Neg e) j = - deriv e j"
| "deriv (Lit c) j = 0"

fun components :: "vexpr \<Rightarrow> scalar list" where
  "components (Constant cs) = map Lit cs"
| "components (as_vector es) = es"

fun grad_of :: "nat \<Rightarrow> fem_function \<Rightarrow> real list list" where
  "grad_of n (Interpolate e) = map (\<lambda>c. map (deriv c) [0..<n]) (components e)"

definition sym_part :: "real list list \<Rightarrow> real list list" where
  "sym_part G =
     map (\<lambda>i. map (\<lambda>j. (G ! i ! j + G ! j ! i) / 2) [0..<length G]) [0..<length G]"

definition inner_mat :: "real list list \<Rightarrow> real list list \<Rightarrow> real" where
  "inner_mat G H = (\<Sum>i\<leftarrow>[0..<length G]. \<Sum>j\<leftarrow>[0..<length (G ! i)]. G ! i ! j * H ! i ! j)"

definition elasticity_integrand :: "real \<Rightarrow> nat \<Rightarrow> fem_function \<Rightarrow> fem_function \<Rightarrow> real" where
  "elasticity_integrand mu n u v =
     mu * inner_mat (sym_part (grad_of n u)) (sym_part (grad_of n v))"

definition is_rigid :: "nat \<Rightarrow> fem_function \<Rightarrow> bool" where
  "is_rigid n u \<longleftrightarrow> sym_part (grad_of n u) = replicate n (replicate n 0)"

section \<open>Concrete inputs used below\<close>

text \<open>
  A scalar space on one interval element, a two-dimensional vector space on one
  triangle, and spaces on the unit square and the unit cube with Firedrake's boundary
  markers.
\<close>

definition unit_interval :: function_space where
  "unit_interval = \<lparr>value_size = 1, unique_markers = [1, 2]\<rparr>"

definition one_triangle :: function_space where
  "one_triangle = \<lparr>value_size = 2, unique_markers = [1, 2, 3]\<rparr>"

definition unit_square :: function_space where
  "unit_square = \<lparr>value_size = 2, unique_markers = [1, 2, 3, 4]\<rparr>"

definition unit_cube :: function_space where
  "unit_cube = \<lparr>value_size = 3, unique_markers = [1, 2, 3, 4, 5, 6]\<rparr>"

text \<open>
  The matrix of \<open>\<integral> u' v' + \<integral> u v\<close> for piecewise linear functions on one element
  of length one (two degrees of freedom): stiffness \<open>[[1, -1], [-1, 1]]\<close> plus mass
  \<open>[[1/3, 1/6], [1/6, 1/3]]\<close>.
\<close>

definition interval_h1 :: assembler where
  "interval_h1 a bc = (2, \<lambda>i j. if i = j then 4 / 3 else - 5 / 6)"



text \<open>
  The matrix of \<open>\<integral> \<nabla>u : \<nabla>v\<close> for piecewise linear vector fields on the triangle
  with corners \<open>(0, 0)\<close>, \<open>(1, 0)\<close>, \<open>(0, 1)\<close>: six degrees of freedom, degree of
  freedom \<open>2 a + c\<close> being component \<open>c\<close> at corner \<open>a\<close>.
\<close>

definition triangle_stiffness :: "nat \<Rightarrow> nat \<Rightarrow> real" where
  "triangle_stiffness a b =
     (if a = b then (if a = 0 then 1 else 1 / 2)
      else if a = 0 \<or> b = 0 then - 1 / 2 else 0)"

definition triangle_laplace :: assembler where
  "triangle_laplace a bc =
     (6, \<lambda>i j. if i mod 2 = j mod 2 then triangle_stiffness (i div 2) (j div 2) else 0)"

text \<open>
  An interpolation matrix from two control coordinates to two degrees of freedom that
  does not reach the second one: \<open>[[1, 0], [0, 0]]\<close>.
\<close>

definition rank_deficient_I :: mat where
  "rank_deficient_I =
     \<lparr>nrows = 2, ncols = 2, entry = (\<lambda>i j. if i = 0 \<and> j = 0 then 1 else 0),
      assembled = True\<rparr>"

section \<open>Auxiliary facts\<close>

text \<open>
  The comparison of a norm with a threshold, without the square root.
\<close>

lemma linalg_norm_less [code_unfold]:
  "linalg_norm vals < c \<longleftrightarrow> 0 < c \<and> (\<Sum>v\<leftarrow>vals. v * v) < c * c"
proof -
  have nonneg: "0 \<le> (\<Sum>v\<leftarrow>vals. v * v)"
    by (rule sum_list_nonneg) auto
  show ?thesis
  proof (cases "0 < c")
    case True
    then have c: "sqrt (c * c) = c"
      by simp
    have "sqrt (\<Sum>v\<leftarrow>vals. v * v) < sqrt (c * c) \<longleftrightarrow> (\<Sum>v\<leftarrow>vals. v * v) < c * c"
      by (rule real_sqrt_less_iff)
    then show ?thesis
      using True by (simp only: linalg_norm_def c simp_thms)
  next
    case False
    from nonneg have "0 \<le> sqrt (\<Sum>v\<leftarrow>vals. v * v)"
      by (rule real_sqrt_ge_zero)
    with False show ?thesis
      unfolding linalg_norm_def by linarith
  qed
qed

subsection \<open>Removing the fixed ids\<close>

lemma remove_bids_valid:
  "distinct free \<Longrightarrow> distinct bids \<Longrightarrow> set bids \<subseteq> set free \<Longrightarrow>
   \<exists>free'. remove_bids bids free = Inr free' \<and> distinct free' \<and> set free' = set free - set bids"
proof (induction bids arbitrary: free)
  case Nil
  then show ?case by simp
next
  case (Cons bid bids)
  from Cons.prems have "distinct (remove1 bid free)" "distinct bids"
    "set bids \<subseteq> set (remove1 bid free)"
    by auto
  from Cons.IH [OF this] obtain free' where
    "remove_bids bids (remove1 bid free) = Inr free'" "distinct free'"
    "set free' = set (remove1 bid free) - set bids"
    by blast
  with Cons.prems show ?case by auto
qed

lemma remove_bids_invalid:
  "\<not> set bids \<subseteq> set free \<Longrightarrow> remove_bids bids free = Inl ValueError"
proof (induction bids arbitrary: free)
  case Nil
  then show ?case by simp
next
  case (Cons bid bids)
  show ?case
  proof (cases "bid \<in> set free")
    case False
    then show ?thesis by simp
  next
    case True
    with Cons.prems have "\<not> set bids \<subseteq> set (remove1 bid free)"
      using set_remove1_subset [of bid free] by auto
    from Cons.IH [OF this] True show ?thesis by simp
  qed
qed

lemma remove_bids_duplicate:
  "distinct free \<Longrightarrow> \<not> distinct bids \<Longrightarrow> remove_bids bids free = Inl ValueError"
proof (induction bids arbitrary: free)
  case Nil
  then show ?case by simp
next
  case (Cons bid bids)
  show ?case
  proof (cases "bid \<in> set free")
    case False
    then show ?thesis by simp
  next
    case True
    show ?thesis
    proof (cases "bid \<in> set bids")
      case dup: True
      from Cons.prems(1) have "bid \<notin> set (remove1 bid free)"
        by simp
      with dup have "\<not> set bids \<subseteq> set (remove1 bid free)"
        by blast
      then have "remove_bids bids (remove1 bid free) = Inl ValueError"
        by (rule remove_bids_invalid)
      with True show ?thesis by simp
    next
      case False
      with Cons.prems(2) have "\<not> distinct bids" by simp
      moreover from Cons.prems(1) have "distinct (remove1 bid free)" by simp
      ultimately have "remove_bids bids (remove1 bid free) = Inl ValueError"
        by (rule Cons.IH [rotated])
      with True show ?thesis by simp
    qed
  qed
qed

lemma remove_bids_error: "remove_bids bids free = Inl e \<Longrightarrow> e = ValueError"
  by (induction bids free rule: remove_bids.induct) (auto split: if_splits)

subsection \<open>The stages of \<^verbatim>\<open>get_impl\<close>\<close>

lemma get_impl_remove_error:
  "remove_bids (fixed_bids self) (unique_markers V) = Inl e \<Longrightarrow> get_impl asm self V I = Inl e"
  by (simp add: get_impl_def bind_err_def)

lemma get_nullspace_free_bids [simp]:
  "get_nullspace (self\<lparr>free_bids := x\<rparr>) V = get_nullspace self V"
  by (simp add: get_nullspace_def)

lemma get_impl_InrD:
  assumes "get_impl asm self V I = Inr (st, cs)"
  shows "\<exists>free nsp bc a calls A0 l self2.
    remove_bids (fixed_bids self) (unique_markers V) = Inr free \<and>
    (if fixed_bids self = [] then
       (get_nullspace self V = Inr None \<and> nsp = None) \<or>
       (\<exists>fs. get_nullspace self V = Inr (Some fs) \<and> nsp = Some \<lparr>vecs = fs, orthonormalized = True\<rparr>)
     else nsp = None) \<and>
    (if fixed_bids self = [] then bc = None
     else (value_size V = 2 \<or> value_size V = 3) \<and>
          bc = Some (DirichletBC GivenSpace (replicate (value_size V) 0) (fixed_bids self))) \<and>
    get_weak_form (self\<lparr>free_bids := Some free\<rparr>) V = Inr (a, calls) \<and>
    A0 = fd_assemble asm a bc \<and>
    l = \<lparr>ls_A = A0, solver_parameters = params self, nullspace = nsp, transpose_nullspace = nsp\<rparr> \<and>
    self2 = self\<lparr>free_bids := Some free, ls := Some l, A := Some A0, interpolated := Some False\<rparr> \<and>
    (case I of
       None \<Rightarrow> st = self2 \<and> cs = calls @ [Assemble a bc]
     | Some P \<Rightarrow>
         (\<exists>ITAI0 ITAI. PtAP A0 P = Inr ITAI0 \<and> patch_zero_rows ITAI0 = Inr ITAI \<and>
            st = self2\<lparr>interpolated := Some True, A := Some ITAI,
                       Aksp := Some \<lparr>operators = ITAI, ksp_type = ''preonly'',
                                      pc_type = ''cholesky'', pc_factor_solver_type = ''mumps'',
                                      is_set_up = True\<rparr>\<rparr> \<and>
            cs = calls @ [Assemble a bc, MatPtAP, KSPSetUp]))"
  using assms
  by (auto simp: get_impl_def bind_err_def Let_def orthonormalize_def VectorSpaceBasis_def
      numeral_2_eq_2 numeral_3_eq_3
      split: sum.splits if_splits option.splits prod.splits)

lemma get_impl_Some:
  "get_impl asm self V (Some P) =
     bind_err (get_impl asm self V None) (\<lambda>(st0, cs0).
     bind_err (PtAP (the (A st0)) P) (\<lambda>ITAI0.
     bind_err (patch_zero_rows ITAI0) (\<lambda>ITAI.
       Inr (st0\<lparr>interpolated := Some True, A := Some ITAI,
                Aksp := Some \<lparr>operators = ITAI, ksp_type = ''preonly'',
                               pc_type = ''cholesky'', pc_factor_solver_type = ''mumps'',
                               is_set_up = True\<rparr>\<rparr>,
            cs0 @ [MatPtAP, KSPSetUp]))))"
  by (simp add: get_impl_def bind_err_def Let_def split: sum.splits prod.splits)

subsection \<open>Patching the rows of the interpolated matrix\<close>

lemma sum_squares_nonzero:
  "(\<Sum>j\<leftarrow>filter (\<lambda>j. f j \<noteq> 0) xs. f j * f j) = (\<Sum>j\<leftarrow>xs. f j * (f j :: real))"
  by (induction xs) auto

lemma getRow_norm:
  "getRow M r = Inr (cols, vals) \<Longrightarrow> linalg_norm vals = row_norm M r"
  by (auto simp: getRow_def linalg_norm_def row_norm_def Let_def comp_def sum_squares_nonzero
      split: if_splits)

lemma find_zero_rows_eq:
  "assembled M \<Longrightarrow> \<forall>r\<in>set rows. r < nrows M \<Longrightarrow>
   find_zero_rows M rows acc = Inr (acc @ filter (\<lambda>r. row_norm M r < 1 / 10 ^ 13) rows)"
proof (induction rows arbitrary: acc)
  case Nil
  then show ?case by simp
next
  case (Cons row rows)
  from Cons.prems obtain cols vals where row: "getRow M row = Inr (cols, vals)"
    by (auto simp: getRow_def Let_def)
  then have "linalg_norm vals = row_norm M row"
    by (rule getRow_norm)
  with row Cons show ?case
    by simp
qed

lemma set_diagonal_eq:
  "\<forall>r\<in>set rows. r < nrows M \<and> r < ncols M \<Longrightarrow>
   set_diagonal M rows =
     Inr (M\<lparr>entry := (\<lambda>i j. if i = j \<and> i \<in> set rows then 1 else entry M i j),
            assembled := (if rows = [] then assembled M else False)\<rparr>)"
proof (induction rows arbitrary: M)
  case Nil
  then show ?case by simp
next
  case (Cons row rows)
  let ?M' = "M\<lparr>entry := (\<lambda>i j. if i = row \<and> j = row then 1 else entry M i j),
                   assembled := False\<rparr>"
  from Cons.prems have step: "setValue M row row 1 = Inr ?M'"
    by (simp add: setValue_def)
  from Cons.prems have "\<forall>r\<in>set rows. r < nrows ?M' \<and> r < ncols ?M'"
    by simp
  moreover have "(\<lambda>i j. if i = j \<and> i \<in> set rows then 1 else entry ?M' i j) =
      (\<lambda>i j. if i = j \<and> i \<in> set (row # rows) then 1 else entry M i j)"
    by (intro ext) auto
  ultimately show ?case
    using Cons.IH [of ?M'] step by simp
qed

lemma patch_zero_rows_eq:
  assumes "assembled J" and "nrows J = ncols J"
  shows "patch_zero_rows J =
     Inr (J\<lparr>entry := (\<lambda>i j. if i = j \<and> i < nrows J \<and> row_norm J i < 1 / 10 ^ 13
                              then 1 else entry J i j)\<rparr>)"
proof -
  let ?zero = "filter (\<lambda>r. row_norm J r < 1 / 10 ^ 13) [0..<nrows J]"
  have find: "find_zero_rows J [0..<nrows J] [] = Inr ?zero"
    using find_zero_rows_eq [of J "[0..<nrows J]" "[]"] assms(1) by simp
  have "\<forall>r\<in>set ?zero. r < nrows J \<and> r < ncols J"
    using assms(2) by simp
  from set_diagonal_eq [OF this] find assms(1) show ?thesis
    by (auto simp: patch_zero_rows_def bind_err_def assemble_mat_def intro!: ext)
qed

lemma PtAP_square:
  "PtAP M P = Inr J \<Longrightarrow> assembled J \<and> nrows J = ncols J \<and> nrows J = ncols P"
  by (auto simp: PtAP_def split: if_splits)


section \<open>The claims\<close>

subsection \<open>C8: the free boundary ids\<close>

text \<open>A bind that succeeds, with one fixed id.\<close>

lemma bind_laplace_fixed_1:
  "\<exists>st cs. get_impl triangle_laplace (init Laplace [1]) one_triangle None = Inr (st, cs)"
  by (simp add: get_impl_def bind_err_def init_def one_triangle_def get_weak_form_def
      get_nullspace_def Let_def)

text \<open>
  Claim C8. Let the boundary markers of \<open>V\<close> be pairwise different (they are the
  unique markers of the mesh). If the fixed ids are pairwise different and each is a
  marker of \<open>V\<close>, then lines 41 to 44 of \<^verbatim>\<open>get_impl\<close> compute a list
  \<open>free\<close> that is disjoint from the fixed ids and whose union with them is the set of
  markers, and every successful bind stores it in \<^verbatim>\<open>self.free_bids\<close>. If
  some fixed id is not a marker of \<open>V\<close>, bind fails, with the \<open>ValueError\<close> of
  \<^verbatim>\<open>list.remove\<close>.
\<close>

theorem free_bids_partition:
  assumes "distinct (unique_markers V)"
  shows "(distinct (fixed_bids self) \<and> set (fixed_bids self) \<subseteq> set (unique_markers V) \<longrightarrow>
           (\<exists>free. remove_bids (fixed_bids self) (unique_markers V) = Inr free \<and>
              set free \<inter> set (fixed_bids self) = {} \<and>
              set free \<union> set (fixed_bids self) = set (unique_markers V) \<and>
              (\<forall>st cs. get_impl asm self V I = Inr (st, cs) \<longrightarrow> free_bids st = Some free))) \<and>
         (\<not> set (fixed_bids self) \<subseteq> set (unique_markers V) \<longrightarrow>
            get_impl asm self V I = Inl ValueError)"
proof (intro conjI impI)
  assume valid: "distinct (fixed_bids self) \<and> set (fixed_bids self) \<subseteq> set (unique_markers V)"
  with assms remove_bids_valid [of "unique_markers V" "fixed_bids self"]
  obtain free where free: "remove_bids (fixed_bids self) (unique_markers V) = Inr free"
    and set_free: "set free = set (unique_markers V) - set (fixed_bids self)"
    by blast
  have "\<forall>st cs. get_impl asm self V I = Inr (st, cs) \<longrightarrow> free_bids st = Some free"
  proof (intro allI impI)
    fix st cs
    assume "get_impl asm self V I = Inr (st, cs)"
    from get_impl_InrD [OF this] free show "free_bids st = Some free"
      by (cases I) auto
  qed
  moreover from set_free valid have "set free \<inter> set (fixed_bids self) = {}"
    and "set free \<union> set (fixed_bids self) = set (unique_markers V)"
    by auto
  ultimately show "\<exists>free. remove_bids (fixed_bids self) (unique_markers V) = Inr free \<and>
      set free \<inter> set (fixed_bids self) = {} \<and>
      set free \<union> set (fixed_bids self) = set (unique_markers V) \<and>
      (\<forall>st cs. get_impl asm self V I = Inr (st, cs) \<longrightarrow> free_bids st = Some free)"
    using free by blast
next
  assume "\<not> set (fixed_bids self) \<subseteq> set (unique_markers V)"
  then have "remove_bids (fixed_bids self) (unique_markers V) = Inl ValueError"
    by (rule remove_bids_invalid)
  then show "get_impl asm self V I = Inl ValueError"
    by (rule get_impl_remove_error)
qed

theorem free_bids_partition_witness:
  "distinct (unique_markers one_triangle) \<and>
   distinct (fixed_bids (init Laplace [1])) \<and>
   set (fixed_bids (init Laplace [1])) \<subseteq> set (unique_markers one_triangle) \<and>
   remove_bids (fixed_bids (init Laplace [1])) (unique_markers one_triangle) = Inr [2, 3] \<and>
   (\<exists>st cs. get_impl triangle_laplace (init Laplace [1]) one_triangle None = Inr (st, cs) \<and>
      free_bids st = Some [2, 3])"
proof -
  have d: "distinct (unique_markers one_triangle)"
    by (simp add: one_triangle_def)
  have valid: "distinct (fixed_bids (init Laplace [1])) \<and>
      set (fixed_bids (init Laplace [1])) \<subseteq> set (unique_markers one_triangle)"
    by (simp add: init_def one_triangle_def)
  have removed: "remove_bids (fixed_bids (init Laplace [1])) (unique_markers one_triangle) = Inr [2, 3]"
    by (simp add: init_def one_triangle_def)
  obtain st cs where
    bound: "get_impl triangle_laplace (init Laplace [1]) one_triangle None = Inr (st, cs)"
    using bind_laplace_fixed_1 by blast
  from free_bids_partition [OF d, of "init Laplace [1]" triangle_laplace None] valid removed bound
  have "free_bids st = Some [2, 3]"
    by auto
  with d valid removed bound show ?thesis
    by blast
qed

subsection \<open>C10: a fixed id listed twice\<close>

text \<open>
  Claim C10. If \<^verbatim>\<open>fixed_bids\<close> lists an id more than once, bind fails with
  \<open>ValueError\<close>, also when the id is a marker of \<open>V\<close>: each
  \<^verbatim>\<open>remove\<close> takes one occurrence out of the list of (pairwise different)
  markers, and a later one finds none.
\<close>

theorem duplicate_fixed_bid_fails:
  assumes "distinct (unique_markers V)" and "\<not> distinct (fixed_bids self)"
  shows "remove_bids (fixed_bids self) (unique_markers V) = Inl ValueError \<and>
         get_impl asm self V I = Inl ValueError"
proof -
  from assms have "remove_bids (fixed_bids self) (unique_markers V) = Inl ValueError"
    by (rule remove_bids_duplicate)
  then show ?thesis
    by (simp add: get_impl_remove_error)
qed

theorem duplicate_fixed_bid_fails_witness:
  "distinct (unique_markers one_triangle) \<and> \<not> distinct (fixed_bids (init Laplace [1, 1])) \<and>
   set (fixed_bids (init Laplace [1, 1])) \<subseteq> set (unique_markers one_triangle) \<and>
   get_impl triangle_laplace (init Laplace [1, 1]) one_triangle None = Inl ValueError"
proof -
  have d: "distinct (unique_markers one_triangle)"
    by (simp add: one_triangle_def)
  have dup: "\<not> distinct (fixed_bids (init Laplace [1, 1]))"
    by (simp add: init_def)
  have "set (fixed_bids (init Laplace [1, 1])) \<subseteq> set (unique_markers one_triangle)"
    by (simp add: init_def one_triangle_def)
  with d dup duplicate_fixed_bid_fails [OF d dup, of triangle_laplace None] show ?thesis
    by blast
qed


subsection \<open>C2: the dimension guards\<close>

text \<open>
  Claim C2, as the code has it. Let the value dimension of \<open>V\<close> be neither 2 nor 3.
  Then bind fails in every variant but one: in the Laplace and Elasticity variants (and
  for the abstract base class) whatever \<^verbatim>\<open>fixed_bids\<close> is, and in the H1
  variant when \<^verbatim>\<open>fixed_bids\<close> is not empty. The error is
  \<open>NotImplementedError\<close>, raised by \<^verbatim>\<open>get_nullspace\<close> or by the guard of
  lines 57 to 64, unless the removal of the fixed ids has failed before, with its
  \<open>ValueError\<close>.
\<close>

theorem dimension_guard:
  assumes "value_size V \<noteq> 2" and "value_size V \<noteq> 3"
    and "kind self \<noteq> H1 \<or> fixed_bids self \<noteq> []"
  shows "get_impl asm self V I =
     (case remove_bids (fixed_bids self) (unique_markers V) of
        Inl e \<Rightarrow> Inl e
      | Inr free \<Rightarrow> Inl NotImplementedError)"
proof (cases "remove_bids (fixed_bids self) (unique_markers V)")
  case (Inl e)
  then show ?thesis
    by (simp add: get_impl_remove_error)
next
  case (Inr free)
  show ?thesis
  proof (cases "fixed_bids self = []")
    case True
    with assms(3) have "kind self \<noteq> H1" by simp
    then have "get_nullspace self V = Inl NotImplementedError"
      using assms(1,2) by (cases "kind self") (simp_all add: get_nullspace_def)
    with Inr True show ?thesis
      by (simp add: get_impl_def bind_err_def)
  next
    case False
    with Inr assms(1,2) show ?thesis
      by (simp add: get_impl_def bind_err_def)
  qed
qed

theorem dimension_guard_witness:
  "value_size unit_interval \<noteq> 2 \<and> value_size unit_interval \<noteq> 3 \<and>
   kind (init Laplace []) \<noteq> H1 \<and>
   get_impl interval_h1 (init Laplace []) unit_interval None = Inl NotImplementedError \<and>
   fixed_bids (init H1 [1]) \<noteq> [] \<and>
   get_impl interval_h1 (init H1 [1]) unit_interval None = Inl NotImplementedError"
proof -
  have d: "value_size unit_interval \<noteq> 2" "value_size unit_interval \<noteq> 3"
    by (simp_all add: unit_interval_def)
  have k: "kind (init Laplace []) \<noteq> H1 \<or> fixed_bids (init Laplace []) \<noteq> []"
    by (simp add: init_def)
  have f: "kind (init H1 [1]) \<noteq> H1 \<or> fixed_bids (init H1 [1]) \<noteq> []"
    by (simp add: init_def)
  from dimension_guard [OF d k, of interval_h1 None]
  have "get_impl interval_h1 (init Laplace []) unit_interval None = Inl NotImplementedError"
    by (simp add: init_def unit_interval_def)
  moreover from dimension_guard [OF d f, of interval_h1 None]
  have "get_impl interval_h1 (init H1 [1]) unit_interval None = Inl NotImplementedError"
    by (simp add: init_def unit_interval_def)
  ultimately show ?thesis
    using d by (simp add: init_def)
qed

text \<open>
  The H1 variant with no fixed ids meets no guard: \<^verbatim>\<open>get_nullspace\<close> returns
  \<^verbatim>\<open>None\<close> without reading the dimension, and lines 57 to 64 are skipped.
  On a space of value dimension one, bind succeeds.
\<close>

theorem h1_binds_in_one_dimension:
  "value_size unit_interval \<notin> {2, 3} \<and>
   \<not> isl (get_impl interval_h1 (init H1 []) unit_interval None)"
  by (simp add: get_impl_def bind_err_def init_def unit_interval_def get_weak_form_def
      get_nullspace_def Let_def)

subsection \<open>C6: when a nullspace is attached\<close>

lemma bind_laplace_free:
  "\<exists>st cs. get_impl triangle_laplace (init Laplace []) one_triangle None = Inr (st, cs)"
  by (simp add: get_impl_def bind_err_def init_def one_triangle_def get_weak_form_def
      get_nullspace_def Let_def)

lemma get_impl_ls:
  assumes "get_impl asm self V I = Inr (st, cs)"
  shows "\<exists>l. ls st = Some l \<and> transpose_nullspace l = nullspace l \<and>
           nullspace l =
             (if fixed_bids self = [] then
                (case get_nullspace self V of
                   Inr (Some fs) \<Rightarrow> Some \<lparr>vecs = fs, orthonormalized = True\<rparr>
                 | _ \<Rightarrow> None)
              else None)"
  using assms
  by (auto simp: get_impl_def bind_err_def Let_def orthonormalize_def VectorSpaceBasis_def
      split: sum.splits if_splits option.splits prod.splits)

text \<open>
  Claim C6. After a successful bind the linear solver has a nullspace exactly when
  \<^verbatim>\<open>fixed_bids\<close> is empty and \<^verbatim>\<open>get_nullspace\<close> of the variant
  returns a list of functions; the basis attached is the orthonormalized basis of that
  list, and the same basis is the transpose nullspace.
\<close>

theorem nullspace_attached_iff:
  assumes "get_impl asm self V I = Inr (st, cs)"
  shows "\<exists>l. ls st = Some l \<and> transpose_nullspace l = nullspace l \<and>
     (nullspace l \<noteq> None \<longleftrightarrow>
        fixed_bids self = [] \<and> (\<exists>fs. get_nullspace self V = Inr (Some fs))) \<and>
     (\<forall>b. nullspace l = Some b \<longrightarrow>
        orthonormalized b \<and> get_nullspace self V = Inr (Some (vecs b)))"
proof -
  from get_impl_ls [OF assms] obtain l where l: "ls st = Some l"
    "transpose_nullspace l = nullspace l"
    "nullspace l =
       (if fixed_bids self = [] then
          (case get_nullspace self V of
             Inr (Some fs) \<Rightarrow> Some \<lparr>vecs = fs, orthonormalized = True\<rparr>
           | _ \<Rightarrow> None)
        else None)"
    by blast
  have "nullspace l \<noteq> None \<longleftrightarrow>
      fixed_bids self = [] \<and> (\<exists>fs. get_nullspace self V = Inr (Some fs))"
    unfolding l(3) by (simp split: sum.splits option.splits)
  moreover have "\<forall>b. nullspace l = Some b \<longrightarrow>
      orthonormalized b \<and> get_nullspace self V = Inr (Some (vecs b))"
    unfolding l(3) by (auto split: sum.splits option.splits if_splits)
  ultimately show ?thesis
    using l(1,2) by blast
qed

theorem nullspace_attached_iff_witness:
  "\<exists>st cs l. get_impl triangle_laplace (init Laplace []) one_triangle None = Inr (st, cs) \<and>
     ls st = Some l \<and>
     nullspace l = Some \<lparr>vecs = [Interpolate (Constant [1, 0]), Interpolate (Constant [0, 1])],
                          orthonormalized = True\<rparr> \<and>
     transpose_nullspace l = nullspace l"
proof -
  obtain st cs where
    bound: "get_impl triangle_laplace (init Laplace []) one_triangle None = Inr (st, cs)"
    using bind_laplace_free by blast
  have declared: "get_nullspace (init Laplace []) one_triangle =
      Inr (Some [Interpolate (Constant [1, 0]), Interpolate (Constant [0, 1])])"
    by (simp add: get_nullspace_def init_def one_triangle_def)
  have free: "fixed_bids (init Laplace []) = []"
    by (simp add: init_def)
  from nullspace_attached_iff [OF bound] obtain l where l1: "ls st = Some l"
    and l2: "transpose_nullspace l = nullspace l"
    and l3: "nullspace l \<noteq> None \<longleftrightarrow> fixed_bids (init Laplace []) = [] \<and>
       (\<exists>fs. get_nullspace (init Laplace []) one_triangle = Inr (Some fs))"
    and l4: "\<forall>b. nullspace l = Some b \<longrightarrow>
       orthonormalized b \<and> get_nullspace (init Laplace []) one_triangle = Inr (Some (vecs b))"
    by blast
  have "nullspace l \<noteq> None"
    unfolding l3 declared free by simp
  then obtain b where b: "nullspace l = Some b"
    by (cases "nullspace l") simp_all
  from l4 b have "orthonormalized b"
    and "get_nullspace (init Laplace []) one_triangle = Inr (Some (vecs b))"
    by simp_all
  then have "orthonormalized b"
    and "vecs b = [Interpolate (Constant [1, 0]), Interpolate (Constant [0, 1])]"
    unfolding declared by simp_all
  then have "b = \<lparr>vecs = [Interpolate (Constant [1, 0]), Interpolate (Constant [0, 1])],
      orthonormalized = True\<rparr>"
    by (cases b) simp
  with b have "nullspace l = Some \<lparr>vecs = [Interpolate (Constant [1, 0]), Interpolate (Constant [0, 1])],
      orthonormalized = True\<rparr>"
    by simp
  with bound l1 l2 show ?thesis
    by (intro exI conjI)
qed

subsection \<open>C7: the coefficient of the elasticity form\<close>

lemma get_weak_form_cong:
  "kind s = kind t \<Longrightarrow> fixed_bids s = fixed_bids t \<Longrightarrow> free_bids s = free_bids t \<Longrightarrow>
   get_weak_form s V = get_weak_form t V"
  by (cases "kind t"; cases "free_bids t") (simp_all add: get_weak_form_def get_mu_def)

lemma get_impl_fields:
  assumes "get_impl asm self V I = Inr (st, cs)"
  shows "\<exists>free. remove_bids (fixed_bids self) (unique_markers V) = Inr free \<and>
     free_bids st = Some free \<and> fixed_bids st = fixed_bids self \<and> kind st = kind self"
  using assms
  by (auto simp: get_impl_def bind_err_def Let_def
      split: sum.splits if_splits option.splits prod.splits)

lemma get_impl_calls:
  assumes "get_impl asm self V I = Inr (st, cs)"
  shows "\<exists>free a calls bc. free_bids st = Some free \<and>
     get_weak_form (self\<lparr>free_bids := Some free\<rparr>) V = Inr (a, calls) \<and>
     cs = calls @ [Assemble a bc] @ (case I of None \<Rightarrow> [] | Some P \<Rightarrow> [MatPtAP, KSPSetUp])"
  using assms
  by (auto simp: get_impl_def bind_err_def Let_def
      split: sum.splits if_splits option.splits prod.splits)

lemma get_weak_form_bound:
  assumes "get_impl asm self V I = Inr (st, cs)"
  shows "\<exists>a calls bc. get_weak_form st V = Inr (a, calls) \<and>
     cs = calls @ [Assemble a bc] @ (case I of None \<Rightarrow> [] | Some P \<Rightarrow> [MatPtAP, KSPSetUp])"
proof -
  from get_impl_calls [OF assms] obtain free a calls bc where
    free: "free_bids st = Some free" and
    wf: "get_weak_form (self\<lparr>free_bids := Some free\<rparr>) V = Inr (a, calls)" and
    cs: "cs = calls @ [Assemble a bc] @ (case I of None \<Rightarrow> [] | Some P \<Rightarrow> [MatPtAP, KSPSetUp])"
    by blast
  from get_impl_fields [OF assms] free have
    "get_weak_form st V = get_weak_form (self\<lparr>free_bids := Some free\<rparr>) V"
    by (intro get_weak_form_cong) auto
  with wf cs show ?thesis
    by simp
qed

lemma bind_elasticity_fixed_1:
  "\<exists>st cs. get_impl triangle_laplace (init Elasticity [1]) one_triangle None = Inr (st, cs)"
  by (simp add: get_impl_def bind_err_def init_def one_triangle_def get_weak_form_def
      get_mu_def get_nullspace_def Let_def)

text \<open>
  Claim C7. In the Elasticity variant, after a successful bind: the form that was
  assembled is \<open>\<integral> \<mu> sym(\<nabla>u) : sym(\<nabla>v)\<close>, where \<open>\<mu>\<close> is the constant 1 when
  \<^verbatim>\<open>fixed_bids\<close> is empty, and otherwise the solution of the scalar problem
  \<open>\<integral> \<nabla>u \<cdot> \<nabla>v = \<integral> 0 v\<close> with Dirichlet value 1 on the fixed ids and 10 on the free
  ids; the calls of the bind contain that auxiliary solve exactly once in the second
  case and not at all in the first.
\<close>

theorem elasticity_mu:
  assumes "kind self = Elasticity" and "get_impl asm self V I = Inr (st, cs)"
  shows "\<exists>free bc. free_bids st = Some free \<and>
     (let a_mu = Integral (Inner (Grad (TrialFunction ScalarCG1)) (Grad (TestFunction ScalarCG1)));
          b_mu = Integral (Inner (ConstantS 0) (TestFunction ScalarCG1));
          bcs = [DirichletBC ScalarCG1 [1] (fixed_bids self), DirichletBC ScalarCG1 [10] free];
          solves_mu = (if fixed_bids self = [] then [] else [VariationalSolve a_mu b_mu bcs]);
          mu = (if fixed_bids self = [] then ConstantS 1 else Solution a_mu b_mu bcs);
          a = Integral (Times mu (Inner (Sym (Grad (TrialFunction GivenSpace)))
                                        (Sym (Grad (TestFunction GivenSpace)))))
      in get_weak_form st V = Inr (a, solves_mu) \<and>
         cs = solves_mu @ [Assemble a bc] @
                (case I of None \<Rightarrow> [] | Some P \<Rightarrow> [MatPtAP, KSPSetUp]) \<and>
         filter is_variational_solve cs = solves_mu)"
proof -
  from get_impl_fields [OF assms(2)] obtain free where free: "free_bids st = Some free"
    "fixed_bids st = fixed_bids self" "kind st = kind self"
    by blast
  from get_weak_form_bound [OF assms(2)] obtain a calls bc where
    wf: "get_weak_form st V = Inr (a, calls)" and
    cs: "cs = calls @ [Assemble a bc] @ (case I of None \<Rightarrow> [] | Some P \<Rightarrow> [MatPtAP, KSPSetUp])"
    by blast
  from wf free assms(1) have "get_weak_form st V = Inr (a, calls) \<and>
    a = Integral (Times (if fixed_bids self = [] then ConstantS 1
          else Solution (Integral (Inner (Grad (TrialFunction ScalarCG1)) (Grad (TestFunction ScalarCG1))))
                 (Integral (Inner (ConstantS 0) (TestFunction ScalarCG1)))
                 [DirichletBC ScalarCG1 [1] (fixed_bids self), DirichletBC ScalarCG1 [10] free])
         (Inner (Sym (Grad (TrialFunction GivenSpace))) (Sym (Grad (TestFunction GivenSpace))))) \<and>
    calls = (if fixed_bids self = [] then []
       else [VariationalSolve (Integral (Inner (Grad (TrialFunction ScalarCG1)) (Grad (TestFunction ScalarCG1))))
                 (Integral (Inner (ConstantS 0) (TestFunction ScalarCG1)))
                 [DirichletBC ScalarCG1 [1] (fixed_bids self), DirichletBC ScalarCG1 [10] free]])"
    by (auto simp: get_weak_form_def get_mu_def bind_err_def Let_def split: if_splits)
  with cs free(1) show ?thesis
    by (cases I) (simp_all add: Let_def)
qed


theorem elasticity_mu_witness:
  "kind (init Elasticity [1]) = Elasticity \<and>
   (\<exists>st cs. get_impl triangle_laplace (init Elasticity [1]) one_triangle None = Inr (st, cs) \<and>
      free_bids st = Some [2, 3] \<and>
      filter is_variational_solve cs =
        [VariationalSolve
           (Integral (Inner (Grad (TrialFunction ScalarCG1)) (Grad (TestFunction ScalarCG1))))
           (Integral (Inner (ConstantS 0) (TestFunction ScalarCG1)))
           [DirichletBC ScalarCG1 [1] [1], DirichletBC ScalarCG1 [10] [2, 3]]])"
proof -
  have k: "kind (init Elasticity [1]) = Elasticity"
    by (simp add: init_def)
  have f: "fixed_bids (init Elasticity [1]) = [1]"
    by (simp add: init_def)
  obtain st cs where
    bound: "get_impl triangle_laplace (init Elasticity [1]) one_triangle None = Inr (st, cs)"
    using bind_elasticity_fixed_1 by blast
  from get_impl_fields [OF bound] have free: "free_bids st = Some [2, 3]"
    by (auto simp: init_def one_triangle_def)
  from elasticity_mu [OF k bound] free
  have "filter is_variational_solve cs =
        [VariationalSolve
           (Integral (Inner (Grad (TrialFunction ScalarCG1)) (Grad (TestFunction ScalarCG1))))
           (Integral (Inner (ConstantS 0) (TestFunction ScalarCG1)))
           [DirichletBC ScalarCG1 [1] [1], DirichletBC ScalarCG1 [10] [2, 3]]]"
    unfolding f Let_def by auto
  with k bound free show ?thesis
    by (intro conjI exI)
qed

subsection \<open>The operator stored by a bind\<close>

lemma fd_assemble_square:
  "assembled (fd_assemble asm a bc) \<and> nrows (fd_assemble asm a bc) = ncols (fd_assemble asm a bc)"
  by (simp add: fd_assemble_def split: prod.splits)

lemma get_impl_None_A:
  assumes "get_impl asm self V None = Inr (st, cs)"
  shows "\<exists>a bc l. A st = Some (fd_assemble asm a bc) \<and> ls st = Some l \<and>
     ls_A l = fd_assemble asm a bc \<and> interpolated st = Some False"
  using assms
  by (auto simp: get_impl_def bind_err_def Let_def
      split: sum.splits if_splits option.splits prod.splits) blast+

lemma get_impl_Some_A:
  assumes "get_impl asm self V (Some P) = Inr (st, cs)"
  shows "\<exists>st0 cs0 A0 J Jp k. get_impl asm self V None = Inr (st0, cs0) \<and> A st0 = Some A0 \<and>
     PtAP A0 P = Inr J \<and> patch_zero_rows J = Inr Jp \<and> A st = Some Jp \<and>
     Aksp st = Some k \<and> operators k = Jp \<and> is_set_up k \<and> interpolated st = Some True \<and>
     cs = cs0 @ [MatPtAP, KSPSetUp]"
proof -
  from assms obtain st0 cs0 where b0: "get_impl asm self V None = Inr (st0, cs0)"
    by (cases "get_impl asm self V None") (auto simp: get_impl_Some bind_err_def)
  from get_impl_None_A [OF b0] obtain A0 where A0: "A st0 = Some A0"
    by blast
  from assms b0 A0 obtain J where J: "PtAP A0 P = Inr J"
    by (cases "PtAP A0 P") (auto simp: get_impl_Some bind_err_def)
  from assms b0 A0 J obtain Jp where Jp: "patch_zero_rows J = Inr Jp"
    by (cases "patch_zero_rows J") (auto simp: get_impl_Some bind_err_def)
  from assms b0 A0 J Jp show ?thesis
    by (auto simp: get_impl_Some bind_err_def)
qed

lemma patch_zero_rows_square:
  assumes "assembled J" and "nrows J = ncols J" and "patch_zero_rows J = Inr Jp"
  shows "assembled Jp \<and> nrows Jp = nrows J \<and> ncols Jp = ncols J"
  using assms patch_zero_rows_eq [OF assms(1,2)] by auto

lemma get_impl_A:
  assumes "get_impl asm self V I = Inr (st, cs)"
  shows "\<exists>M. A st = Some M \<and> assembled M \<and> nrows M = ncols M"
proof (cases I)
  case None
  with assms get_impl_None_A [of asm self V st cs] show ?thesis
    using fd_assemble_square by auto
next
  case (Some P)
  with assms get_impl_Some_A [of asm self V P st cs] obtain A0 J Jp where
    "PtAP A0 P = Inr J" "patch_zero_rows J = Inr Jp" "A st = Some Jp"
    by blast
  with PtAP_square [of A0 P J] patch_zero_rows_square [of J Jp] show ?thesis
    by simp
qed

lemma mult_dot:
  assumes "assembled M" and "length u = ncols M" and "length v = nrows M"
  shows "bind_err (mult M u) (\<lambda>A_u. dot v A_u) = Inr (bilinear M u v)"
proof -
  have "(\<Sum>i\<leftarrow>[0..<nrows M]. v ! i * map (\<lambda>i. \<Sum>j\<leftarrow>[0..<ncols M]. entry M i j * u ! j) [0..<nrows M] ! i) =
      (\<Sum>i\<leftarrow>[0..<nrows M]. v ! i * (\<Sum>j\<leftarrow>[0..<ncols M]. entry M i j * u ! j))"
    by (rule arg_cong [where f = sum_list]) (simp cong: map_cong)
  also have "\<dots> = bilinear M u v"
    by (simp add: bilinear_def sum_list_const_mult mult.assoc)
  finally show ?thesis
    using assms by (simp add: mult_def dot_def bind_err_def)
qed

lemma bilinear_sum:
  "bilinear M u v = (\<Sum>i = 0..<nrows M. \<Sum>j = 0..<ncols M. v ! i * entry M i j * u ! j)"
  by (simp add: bilinear_def interv_sum_list_conv_sum_set_nat)

lemma bilinear_symmetric:
  assumes "symmetric M"
  shows "bilinear M u v = bilinear M v u"
proof -
  from assms have sq: "nrows M = ncols M"
    and sym: "\<And>i j. i < nrows M \<Longrightarrow> j < ncols M \<Longrightarrow> entry M i j = entry M j i"
    by (auto simp: symmetric_def)
  have "bilinear M v u = (\<Sum>i = 0..<nrows M. \<Sum>j = 0..<ncols M. u ! i * entry M i j * v ! j)"
    by (rule bilinear_sum)
  also have "\<dots> = (\<Sum>j = 0..<ncols M. \<Sum>i = 0..<nrows M. u ! i * entry M i j * v ! j)"
    by (rule sum.swap)
  also have "\<dots> = (\<Sum>j = 0..<nrows M. \<Sum>i = 0..<ncols M. v ! j * entry M j i * u ! i)"
    using sq sym by (intro sum.cong) (auto simp: mult_ac)
  also have "\<dots> = bilinear M u v"
    by (simp add: bilinear_sum)
  finally show ?thesis by simp
qed

text \<open>
  The product \<open>P\<^sup>T A P\<close> of a symmetric \<open>A\<close> is symmetric, and the patch changes
  diagonal entries only: when the assembler gives symmetric matrices, the operator stored
  by a bind is symmetric, with or without interpolation matrix.
\<close>

lemma PtAP_symmetric:
  assumes "symmetric M" and "PtAP M P = Inr J"
  shows "symmetric J"
proof -
  from assms(1) have sq: "nrows M = ncols M"
    and sym: "\<And>k l. k < nrows M \<Longrightarrow> l < ncols M \<Longrightarrow> entry M k l = entry M l k"
    by (auto simp: symmetric_def)
  from assms(2) have J: "nrows J = ncols P" "ncols J = ncols P"
    "entry J = (\<lambda>i j. \<Sum>k\<leftarrow>[0..<nrows M]. \<Sum>l\<leftarrow>[0..<ncols M].
                  entry P k i * entry M k l * entry P l j)"
    by (auto simp: PtAP_def split: if_splits)
  have "entry J i j = entry J j i" for i j
  proof -
    have "entry J j i =
        (\<Sum>k = 0..<nrows M. \<Sum>l = 0..<ncols M. entry P k j * entry M k l * entry P l i)"
      by (simp add: J(3) interv_sum_list_conv_sum_set_nat)
    also have "\<dots> = (\<Sum>l = 0..<ncols M. \<Sum>k = 0..<nrows M. entry P k j * entry M k l * entry P l i)"
      by (rule sum.swap)
    also have "\<dots> = (\<Sum>l = 0..<nrows M. \<Sum>k = 0..<ncols M. entry P l i * entry M l k * entry P k j)"
      using sq sym by (intro sum.cong) (auto simp: mult_ac)
    also have "\<dots> = entry J i j"
      by (simp add: J(3) interv_sum_list_conv_sum_set_nat)
    finally show ?thesis by simp
  qed
  with J(1,2) show ?thesis
    by (simp add: symmetric_def)
qed

lemma patch_zero_rows_symmetric:
  assumes "symmetric J" and "assembled J" and "patch_zero_rows J = Inr Jp"
  shows "symmetric Jp"
proof -
  from assms(1) have sq: "nrows J = ncols J"
    by (simp add: symmetric_def)
  from patch_zero_rows_eq [OF assms(2) sq] assms(3) have
    "Jp = J\<lparr>entry := (\<lambda>i j. if i = j \<and> i < nrows J \<and> row_norm J i < 1 / 10 ^ 13
                             then 1 else entry J i j)\<rparr>"
    by simp
  with assms(1) show ?thesis
    by (auto simp: symmetric_def)
qed

lemma get_impl_symmetric:
  assumes "get_impl asm self V I = Inr (st, cs)"
    and "\<And>a bc. symmetric (fd_assemble asm a bc)"
  shows "\<exists>M. A st = Some M \<and> symmetric M"
proof (cases I)
  case None
  with assms(1) get_impl_None_A [of asm self V st cs] assms(2) show ?thesis
    by auto
next
  case (Some P)
  with assms(1) get_impl_Some_A [of asm self V P st cs] obtain st0 cs0 A0 J Jp where
    b0: "get_impl asm self V None = Inr (st0, cs0)" "A st0 = Some A0"
    and J: "PtAP A0 P = Inr J" "patch_zero_rows J = Inr Jp" "A st = Some Jp"
    by blast
  from get_impl_None_A [OF b0(1)] b0(2) assms(2) have "symmetric A0"
    by auto
  then have "symmetric J"
    using J(1) by (rule PtAP_symmetric)
  moreover from PtAP_square [OF J(1)] have "assembled J"
    by simp
  ultimately have "symmetric Jp"
    using J(2) by (rule patch_zero_rows_symmetric)
  with J(3) show ?thesis
    by simp
qed

lemma upt_0_2: "[0..<2] = [0, Suc 0]"
  by (simp add: numeral_2_eq_2)

lemma bind_h1_interval:
  "\<exists>st cs. get_impl interval_h1 (init H1 []) unit_interval None = Inr (st, cs)"
  by (simp add: get_impl_def bind_err_def init_def unit_interval_def get_weak_form_def
      get_nullspace_def Let_def)

subsection \<open>C5: the value of \<^verbatim>\<open>eval\<close>\<close>

text \<open>
  Claim C5, as the code has it. After a successful bind, \<^verbatim>\<open>eval(u, v)\<close> is the
  scalar \<open>v\<^sup>T M u\<close>, where \<open>M\<close> is the stored operator \<^verbatim>\<open>self.A\<close>: the
  assembled matrix, or the patched \<open>I\<^sup>T A I\<close> after an interpolated bind, and in both
  cases with \<open>u\<close> on the right and \<open>v\<close> on the left. \<^verbatim>\<open>eval\<close> assigns no
  attribute of \<^verbatim>\<open>self\<close> and writes only into the vector it creates: in the
  model it returns a scalar and nothing else.
\<close>

theorem eval_bilinear:
  assumes "get_impl asm self V I = Inr (st, cs)" and "A st = Some M"
    and "length u = ncols M" and "length v = nrows M"
  shows "eval st u v = Inr (bilinear M u v)"
proof -
  from get_impl_A [OF assms(1)] assms(2) have "assembled M"
    by auto
  from mult_dot [OF this assms(3,4)] assms(2) show ?thesis
    by (simp add: eval_def)
qed

theorem eval_bilinear_witness:
  "\<exists>st cs M. get_impl interval_h1 (init H1 []) unit_interval None = Inr (st, cs) \<and>
     A st = Some M \<and> length [1, 2 :: real] = ncols M \<and> length [3, 5 :: real] = nrows M \<and>
     eval st [1, 2] [3, 5] = Inr (49 / 6)"
proof -
  obtain st cs where
    bound: "get_impl interval_h1 (init H1 []) unit_interval None = Inr (st, cs)"
    by (cases "get_impl interval_h1 (init H1 []) unit_interval None")
      (simp_all add: get_impl_def bind_err_def init_def unit_interval_def get_weak_form_def
        get_nullspace_def Let_def)
  from get_impl_None_A [OF bound] obtain a bc where M: "A st = Some (fd_assemble interval_h1 a bc)"
    by blast
  have n: "nrows (fd_assemble interval_h1 a bc) = 2" "ncols (fd_assemble interval_h1 a bc) = 2"
    by (simp_all add: fd_assemble_def interval_h1_def)
  have e: "entry (fd_assemble interval_h1 a bc) = (\<lambda>i j. if i = j then 4 / 3 else - 5 / 6)"
    by (simp add: fd_assemble_def interval_h1_def)
  have "bilinear (fd_assemble interval_h1 a bc) [1, 2] [3, 5] = 49 / 6"
    by (simp add: bilinear_def n e upt_0_2)
  moreover have len: "length [1, 2 :: real] = ncols (fd_assemble interval_h1 a bc)"
    "length [3, 5 :: real] = nrows (fd_assemble interval_h1 a bc)"
    by (simp_all add: n)
  ultimately have "eval st [1, 2] [3, 5] = Inr (49 / 6)"
    using eval_bilinear [OF bound M, of "[1, 2]" "[3, 5]"] by simp
  with bound M len show ?thesis
    by (intro exI conjI)
qed


text \<open>
  In the interpolated case the value is not the quadratic form \<open>v\<^sup>T J v\<close>: for
  \<open>u = (2, 0)\<close> and \<open>v = (3, 0)\<close> on the patched operator \<open>[[4/3, 0], [0, 1]]\<close> the
  code returns \<open>v\<^sup>T J u = 8\<close>, and \<open>v\<^sup>T J v = 12\<close>.
\<close>

theorem eval_interpolated_not_quadratic:
  "(case get_impl interval_h1 (init H1 []) unit_interval (Some rank_deficient_I) of
      Inl e \<Rightarrow> False
    | Inr (st, cs) \<Rightarrow>
        interpolated st = Some True \<and>
        eval st [2, 0] [3, 0] = Inr 8 \<and>
        bilinear (the (A st)) [3, 0] [3, 0] = 12)"
  by code_simp

subsection \<open>C9: symmetry of \<^verbatim>\<open>eval\<close>\<close>

text \<open>
  Claim C9. After a successful bind whose stored operator is symmetric,
  \<^verbatim>\<open>eval(u, v)\<close> and \<^verbatim>\<open>eval(v, u)\<close> are equal, for all vectors of
  the operator's size (in exact arithmetic).
\<close>

theorem eval_symmetric:
  assumes "get_impl asm self V I = Inr (st, cs)" and "A st = Some M" and "symmetric M"
    and "length u = ncols M" and "length v = nrows M"
  shows "eval st u v = eval st v u"
proof -
  from assms(3) have sq: "nrows M = ncols M"
    by (simp add: symmetric_def)
  from get_impl_A [OF assms(1)] assms(2) have asm: "assembled M"
    by auto
  have "eval st u v = Inr (bilinear M u v)"
    using mult_dot [OF asm assms(4,5)] assms(2) by (simp add: eval_def)
  moreover have "eval st v u = Inr (bilinear M v u)"
    using mult_dot [OF asm, of v u] assms(2,4,5) sq by (simp add: eval_def)
  ultimately show ?thesis
    using bilinear_symmetric [OF assms(3)] by simp
qed

theorem eval_symmetric_witness:
  "\<exists>st cs M. get_impl interval_h1 (init H1 []) unit_interval None = Inr (st, cs) \<and>
     A st = Some M \<and> symmetric M \<and>
     length [1, 2 :: real] = ncols M \<and> length [3, 5 :: real] = nrows M \<and>
     eval st [1, 2] [3, 5] = eval st [3, 5] [1, 2]"
proof -
  obtain st cs where
    bound: "get_impl interval_h1 (init H1 []) unit_interval None = Inr (st, cs)"
    using bind_h1_interval by blast
  from get_impl_None_A [OF bound] obtain a bc where M: "A st = Some (fd_assemble interval_h1 a bc)"
    by blast
  have sym: "symmetric (fd_assemble interval_h1 a bc)"
    by (simp add: symmetric_def fd_assemble_def interval_h1_def)
  have len: "length [1, 2 :: real] = ncols (fd_assemble interval_h1 a bc)"
    "length [3, 5 :: real] = nrows (fd_assemble interval_h1 a bc)"
    by (simp_all add: fd_assemble_def interval_h1_def)
  from eval_symmetric [OF bound M sym len]
  have "eval st [1, 2] [3, 5] = eval st [3, 5] [1, 2]" .
  with bound M sym len show ?thesis
    by (intro exI conjI)
qed

subsection \<open>C3: the interpolated operator\<close>

lemma row_norm_less:
  "row_norm M r < c \<longleftrightarrow> 0 < c \<and> (\<Sum>j\<leftarrow>[0..<ncols M]. entry M r j * entry M r j) < c * c"
proof -
  have "row_norm M r = linalg_norm (map (entry M r) [0..<ncols M])"
    by (simp add: row_norm_def linalg_norm_def comp_def)
  then show ?thesis
    by (simp add: linalg_norm_less comp_def)
qed

text \<open>
  Claim C3. Let a bind without interpolation matrix succeed, with assembled matrix
  \<open>A0\<close>, and let \<open>P\<close> be an assembled matrix with as many rows as \<open>A0\<close> has
  columns. Then the bind with \<open>P\<close> succeeds as well: no error comes from the rows of
  small norm. With \<open>J = P\<^sup>T A0 P\<close>, the operator it stores and hands to the direct
  solver is \<open>J\<close> with the diagonal entry set to one in exactly the rows whose 2-norm is
  below \<open>1e-13\<close>, every other entry unchanged, in the assembled state. (Entries are
  real numbers here, not floating-point numbers.)
\<close>

theorem interpolation_patch:
  assumes "get_impl asm self V None = Inr (st0, cs0)" and "A st0 = Some A0"
    and "assembled P" and "nrows P = ncols A0"
  shows "\<exists>J Jp st cs k.
     PtAP A0 P = Inr J \<and>
     (\<forall>i j. entry J i j =
        (\<Sum>k\<leftarrow>[0..<nrows A0]. \<Sum>l\<leftarrow>[0..<ncols A0]. entry P k i * entry A0 k l * entry P l j)) \<and>
     get_impl asm self V (Some P) = Inr (st, cs) \<and>
     interpolated st = Some True \<and> A st = Some Jp \<and>
     Aksp st = Some k \<and> operators k = Jp \<and>
     assembled Jp \<and> nrows Jp = nrows J \<and> ncols Jp = ncols J \<and>
     (\<forall>r c. entry Jp r c =
        (if r = c \<and> r < nrows J \<and> row_norm J r < 1 / 10 ^ 13 then 1 else entry J r c))"
proof -
  from get_impl_A [OF assms(1)] assms(2) have A0: "assembled A0" "nrows A0 = ncols A0"
    by auto
  define J where "J = \<lparr>nrows = ncols P, ncols = ncols P,
      entry = (\<lambda>i j. \<Sum>k\<leftarrow>[0..<nrows A0]. \<Sum>l\<leftarrow>[0..<ncols A0].
                 entry P k i * entry A0 k l * entry P l j),
      assembled = True\<rparr>"
  define Jp where "Jp = J\<lparr>entry := (\<lambda>i j. if i = j \<and> i < nrows J \<and> row_norm J i < 1 / 10 ^ 13
      then 1 else entry J i j)\<rparr>"
  define k where "k = \<lparr>operators = Jp, ksp_type = ''preonly'', pc_type = ''cholesky'',
      pc_factor_solver_type = ''mumps'', is_set_up = True\<rparr>"
  have J: "PtAP A0 P = Inr J"
    using A0 assms(3,4) by (simp add: PtAP_def J_def)
  have sq: "assembled J" "nrows J = ncols J"
    by (simp_all add: J_def)
  have patch: "patch_zero_rows J = Inr Jp"
    unfolding Jp_def by (rule patch_zero_rows_eq [OF sq])
  have "get_impl asm self V (Some P) =
      Inr (st0\<lparr>interpolated := Some True, A := Some Jp, Aksp := Some k\<rparr>,
           cs0 @ [MatPtAP, KSPSetUp])"
    using assms(1,2) J patch by (simp add: get_impl_Some bind_err_def k_def)
  moreover have "\<forall>i j. entry J i j =
        (\<Sum>k\<leftarrow>[0..<nrows A0]. \<Sum>l\<leftarrow>[0..<ncols A0]. entry P k i * entry A0 k l * entry P l j)"
    by (simp add: J_def)
  moreover have "assembled Jp \<and> nrows Jp = nrows J \<and> ncols Jp = ncols J \<and>
     (\<forall>r c. entry Jp r c =
        (if r = c \<and> r < nrows J \<and> row_norm J r < 1 / 10 ^ 13 then 1 else entry J r c))"
    using sq by (simp add: Jp_def)
  moreover have "operators k = Jp"
    by (simp add: k_def)
  ultimately show ?thesis
    using J by (intro exI [of _ J] exI [of _ Jp] exI [of _ k]
        exI [of _ "st0\<lparr>interpolated := Some True, A := Some Jp, Aksp := Some k\<rparr>"]
        exI [of _ "cs0 @ [MatPtAP, KSPSetUp]"]) simp
qed


theorem interpolation_patch_witness:
  "\<exists>st0 cs0 A0 st cs Jp.
     get_impl interval_h1 (init H1 []) unit_interval None = Inr (st0, cs0) \<and> A st0 = Some A0 \<and>
     assembled rank_deficient_I \<and> nrows rank_deficient_I = ncols A0 \<and>
     get_impl interval_h1 (init H1 []) unit_interval (Some rank_deficient_I) = Inr (st, cs) \<and>
     A st = Some Jp \<and>
     entry Jp 0 0 = 4 / 3 \<and> entry Jp 0 1 = 0 \<and> entry Jp 1 0 = 0 \<and> entry Jp 1 1 = 1"
proof -
  obtain st0 cs0 where
    bound: "get_impl interval_h1 (init H1 []) unit_interval None = Inr (st0, cs0)"
    using bind_h1_interval by blast
  from get_impl_None_A [OF bound] obtain a bc where
    A0: "A st0 = Some (fd_assemble interval_h1 a bc)"
    by blast
  let ?A0 = "fd_assemble interval_h1 a bc"
  have n: "nrows ?A0 = 2" "ncols ?A0 = 2"
    and e: "entry ?A0 = (\<lambda>i j. if i = j then 4 / 3 else - 5 / 6)"
    by (simp_all add: fd_assemble_def interval_h1_def)
  have P: "assembled rank_deficient_I" "nrows rank_deficient_I = ncols ?A0"
    by (simp_all add: rank_deficient_I_def n)
  from interpolation_patch [OF bound A0 P] obtain J Jp st cs where
    J: "PtAP ?A0 rank_deficient_I = Inr J"
    and entries: "\<forall>i j. entry J i j =
        (\<Sum>k\<leftarrow>[0..<nrows ?A0]. \<Sum>l\<leftarrow>[0..<ncols ?A0].
           entry rank_deficient_I k i * entry ?A0 k l * entry rank_deficient_I l j)"
    and st: "get_impl interval_h1 (init H1 []) unit_interval (Some rank_deficient_I) = Inr (st, cs)"
      "A st = Some Jp"
    and patched: "\<forall>r c. entry Jp r c =
        (if r = c \<and> r < nrows J \<and> row_norm J r < 1 / 10 ^ 13 then 1 else entry J r c)"
    by blast
  from PtAP_square [OF J] have size: "nrows J = 2" "ncols J = 2"
    by (simp_all add: rank_deficient_I_def)
  have J_entry: "entry J i j = (if i = 0 \<and> j = 0 then 4 / 3 else 0)" for i j
    by (simp add: entries n e upt_0_2 rank_deficient_I_def)
  have "\<not> row_norm J 0 < 1 / 10 ^ 13" and "row_norm J 1 < 1 / 10 ^ 13"
    unfolding row_norm_less by (simp_all add: size J_entry upt_0_2)
  with patched size J_entry have "entry Jp 0 0 = 4 / 3" "entry Jp 0 1 = 0" "entry Jp 1 0 = 0"
    "entry Jp 1 1 = 1"
    by simp_all
  with bound A0 P st show ?thesis
    by (intro exI conjI)
qed
subsection \<open>C4: \<^verbatim>\<open>riesz_map\<close>\<close>











subsection \<open>C1: the nullspace of the elasticity form\<close>

text \<open>
  A field whose symmetric gradient vanishes makes the integrand of the elasticity form
  vanish against every test field, whatever the coefficient. The constant fields, and
  the rotation field \<open>[y, -x]\<close> of the two-dimensional case, are of this kind.
\<close>

lemma inner_mat_zero: "inner_mat (replicate n (replicate n 0)) H = 0"
proof -
  have "map (\<lambda>i. \<Sum>j\<leftarrow>[0..<length (replicate n (replicate n (0::real)) ! i)].
            replicate n (replicate n 0) ! i ! j * H ! i ! j) [0..<n] =
        map (\<lambda>i. 0) [0..<n]"
  proof (rule map_cong [OF refl])
    fix i
    assume "i \<in> set [0..<n]"
    then have i: "i < n" by simp
    have "map (\<lambda>j. replicate n (0::real) ! j * H ! i ! j) [0..<n] = map (\<lambda>j. 0) [0..<n]"
      by (rule map_cong [OF refl]) simp
    then have "(\<Sum>j\<leftarrow>[0..<n]. replicate n (0::real) ! j * H ! i ! j) = (\<Sum>j\<leftarrow>[0..<n]. 0)"
      by (rule arg_cong)
    with i show "(\<Sum>j\<leftarrow>[0..<length (replicate n (replicate n (0::real)) ! i)].
        replicate n (replicate n 0) ! i ! j * H ! i ! j) = 0"
      by simp
  qed
  then have "inner_mat (replicate n (replicate n 0)) H = (\<Sum>i\<leftarrow>[0..<n]. 0)"
    unfolding inner_mat_def length_replicate by (rule arg_cong)
  then show ?thesis
    by simp
qed

lemma rigid_annihilated: "is_rigid n u \<Longrightarrow> elasticity_integrand mu n u v = 0"
  by (simp add: is_rigid_def elasticity_integrand_def inner_mat_zero)

lemma elasticity_nullspace_2d_rigid:
  "get_nullspace (init Elasticity []) unit_square =
     Inr (Some [Interpolate (Constant [1, 0]), Interpolate (Constant [0, 1]),
                Interpolate (as_vector [X 1, Neg (X 0)])]) \<and>
   is_rigid 2 (Interpolate (Constant [1, 0])) \<and>
   is_rigid 2 (Interpolate (Constant [0, 1])) \<and>
   is_rigid 2 (Interpolate (as_vector [X 1, Neg (X 0)]))"
  by code_simp

lemma laplace_nullspace_constant:
  "get_nullspace (init Laplace []) unit_cube =
     Inr (Some [Interpolate (Constant [1, 0, 0]), Interpolate (Constant [0, 1, 0]),
                Interpolate (Constant [0, 0, 1])]) \<and>
   grad_of 3 (Interpolate (Constant [1, 0, 0])) = replicate 3 (replicate 3 0) \<and>
   grad_of 3 (Interpolate (Constant [0, 1, 0])) = replicate 3 (replicate 3 0) \<and>
   grad_of 3 (Interpolate (Constant [0, 0, 1])) = replicate 3 (replicate 3 0)"
  by code_simp

text \<open>
  Claim C1 fails on the code in three dimensions. The six fields that
  \<^verbatim>\<open>get_nullspace\<close> declares are the three constants, \<open>[-y, x, 0]\<close>,
  \<open>[-z, 0, x]\<close> and \<open>[0, z, y]\<close>. The first five have a vanishing symmetric gradient.
  The sixth is not a rotation but a shear: its symmetric gradient has the entries
  \<open>(1, 2)\<close> and \<open>(2, 1)\<close> equal to one, and the integrand of the form at this field
  against itself is the constant 2 (for \<open>\<mu> = 1\<close>), so the form does not annihilate it.
  The rotation about the first axis is \<open>[0, -z, y]\<close>.
\<close>

theorem elasticity_nullspace_3d_shear:
  "get_nullspace (init Elasticity []) unit_cube =
     Inr (Some [Interpolate (Constant [1, 0, 0]),
                Interpolate (Constant [0, 1, 0]),
                Interpolate (Constant [0, 0, 1]),
                Interpolate (as_vector [Neg (X 1), X 0, Lit 0]),
                Interpolate (as_vector [Neg (X 2), Lit 0, X 0]),
                Interpolate (as_vector [Lit 0, X 2, X 1])]) \<and>
   is_rigid 3 (Interpolate (Constant [1, 0, 0])) \<and>
   is_rigid 3 (Interpolate (Constant [0, 1, 0])) \<and>
   is_rigid 3 (Interpolate (Constant [0, 0, 1])) \<and>
   is_rigid 3 (Interpolate (as_vector [Neg (X 1), X 0, Lit 0])) \<and>
   is_rigid 3 (Interpolate (as_vector [Neg (X 2), Lit 0, X 0])) \<and>
   \<not> is_rigid 3 (Interpolate (as_vector [Lit 0, X 2, X 1])) \<and>
   sym_part (grad_of 3 (Interpolate (as_vector [Lit 0, X 2, X 1]))) =
     [[0, 0, 0], [0, 0, 1], [0, 1, 0]] \<and>
   elasticity_integrand 1 3 (Interpolate (as_vector [Lit 0, X 2, X 1]))
     (Interpolate (as_vector [Lit 0, X 2, X 1])) = 2 \<and>
   is_rigid 3 (Interpolate (as_vector [Lit 0, Neg (X 2), X 1]))"
  by code_simp

end
